theory Spec2Isabelle
  imports Complex_Main "HOL-Library.Word"
begin

section \<open>Data model\<close>

text \<open>
  The program works on OpenCV matrices. A matrix is modelled by its header fields
  \<open>rows\<close> and \<open>cols\<close> and its elements as a list of rows. Sizes, coordinates and loop
  counters are \<open>int\<close> in the source and never negative there; they are natural numbers
  here, and every comparison that the source makes after a subtraction is written
  over \<open>int\<close> so that nothing is truncated.

  The type of the elements is a parameter. The coefficients of a block are
  single-precision numbers: any linearly ordered type with a zero can stand for them,
  so that infinities are covered; NaN, which is not ordered, is outside the model,
  and the two zeros of single precision, which compare equal, are one value.
  Nothing is assumed about single-precision arithmetic: the values that the machine
  computes are taken from a record of operations (\<open>float_arith\<close> below).
\<close>

record 'a Mat =
  rows :: nat
  cols :: nat
  elems :: "'a list list"

datatype Point = Point (pt_x: nat) (pt_y: nat)

datatype Rect = Rect (rect_x: nat) (rect_y: nat) (rect_width: nat) (rect_height: nat)

datatype error =
    Exit int \<comment> \<open>the process ends with this status (\<open>exit\<close>, or \<open>return\<close> from \<open>main\<close>)\<close>
  | CvAssert \<comment> \<open>a failed \<open>CV_Assert\<close> inside the library: an uncaught \<open>cv::Exception\<close>\<close>
  | OutOfRange \<comment> \<open>an unchecked access outside a matrix\<close>
  | DivByZero \<comment> \<open>integer division by zero\<close>

text \<open>The representation invariant of a matrix: \<open>rows\<close> rows of \<open>cols\<close> elements each.\<close>

definition Mat_wf :: "'a Mat \<Rightarrow> bool" where
  "Mat_wf m = (length (elems m) = rows m \<and> list_all (\<lambda>r. length r = cols m) (elems m))"

definition Mat_empty :: "'a Mat \<Rightarrow> bool" where
  "Mat_empty m = (rows m = 0 \<or> cols m = 0)"

text \<open>\<open>Mat_tabulate h w f\<close> is the \<open>h\<close> by \<open>w\<close> matrix whose element in row \<open>r\<close>, column \<open>c\<close> is \<open>f r c\<close>.\<close>

definition Mat_tabulate :: "nat \<Rightarrow> nat \<Rightarrow> (nat \<Rightarrow> nat \<Rightarrow> 'a) \<Rightarrow> 'a Mat" where
  "Mat_tabulate h w f = \<lparr>rows = h, cols = w, elems = map (\<lambda>r. map (\<lambda>c. f r c) [0..<w]) [0..<h]\<rparr>"

text \<open>\<open>m.at(r, c)\<close>: the element in row \<open>r\<close> and column \<open>c\<close>, without a range check.\<close>

definition Mat_elem :: "'a Mat \<Rightarrow> nat \<Rightarrow> nat \<Rightarrow> 'a" where
  "Mat_elem m r c = elems m ! r ! c"

text \<open>\<open>cv::Mat::zeros(h, w, type)\<close>.\<close>

definition Mat_zeros :: "nat \<Rightarrow> nat \<Rightarrow> ('a::zero) Mat" where
  "Mat_zeros h w = Mat_tabulate h w (\<lambda>r c. 0)"

text \<open>
  \<open>m.at<T>(row, col)\<close> and \<open>m.at<T>(Point p)\<close>, which reads row \<open>p.y\<close>, column \<open>p.x\<close>. The
  library checks the range only in debug builds; an access outside the matrix is the
  error \<open>OutOfRange\<close> here.
\<close>

definition Mat_at_rc :: "'a Mat \<Rightarrow> nat \<Rightarrow> nat \<Rightarrow> error + 'a" where
  "Mat_at_rc m r c = (if r < rows m \<and> c < cols m then Inr (Mat_elem m r c) else Inl OutOfRange)"

definition Mat_at :: "'a Mat \<Rightarrow> Point \<Rightarrow> error + 'a" where
  "Mat_at m p = Mat_at_rc m (pt_y p) (pt_x p)"

text \<open>The assignment \<open>m.at<T>(Point p) = v\<close>.\<close>

definition Mat_set :: "'a Mat \<Rightarrow> Point \<Rightarrow> 'a \<Rightarrow> error + 'a Mat" where
  "Mat_set m p v = (if pt_y p < rows m \<and> pt_x p < cols m
                    then Inr (m\<lparr>elems := (elems m)[pt_y p := (elems m ! pt_y p)[pt_x p := v]]\<rparr>)
                    else Inl OutOfRange)"

section \<open>Library primitive: the location of the maximum\<close>

text \<open>
  \<open>cv::minMaxLoc\<close> scans the elements in row-major order and keeps the running maximum
  together with its offset, replacing both only when an element is strictly greater:
  of several equal maxima the first one in scan order is reported. The comparison is
  on the signed value, not on the absolute value. The source uses only the reported
  location of the maximum (\<open>max_loc\<close>), as a \<open>Point\<close> with \<open>x\<close> the column and \<open>y\<close> the
  row; the minimum is computed by the library and ignored by the program. An empty
  matrix has no element to report, which is \<open>None\<close>.
\<close>

fun maxIdx_scan :: "('a::linorder) list \<Rightarrow> nat \<Rightarrow> 'a \<times> nat \<Rightarrow> 'a \<times> nat" where
  "maxIdx_scan [] i acc = acc"
| "maxIdx_scan (v # vs) i (maxVal, maxIdx) =
     maxIdx_scan vs (i + 1) (if v > maxVal then (v, i) else (maxVal, maxIdx))"

definition maxIdx :: "('a::linorder) Mat \<Rightarrow> nat option" where
  "maxIdx m = (case concat (elems m) of
                 [] \<Rightarrow> None
               | v # vs \<Rightarrow> Some (snd (maxIdx_scan vs 1 (v, 0))))"

definition minMaxLoc :: "('a::linorder) Mat \<Rightarrow> Point option" where
  "minMaxLoc m = (case maxIdx m of
                    None \<Rightarrow> None
                  | Some ofs \<Rightarrow> Some (Point (ofs mod cols m) (ofs div cols m)))"

section \<open>Single-precision arithmetic\<close>

text \<open>
  The three places where the program computes with \<open>float\<close> values:
  \<open>f_half\<close> is the value that \<open>float alpha = 0.5\<close> holds;
  \<open>f_add_mul v a w\<close> is the value that the expression \<open>v + a * w\<close> of \<open>placeWatermark\<close> has
  on the machine, with whatever rounding, fusing or overflow to an infinity that
  involves;
  \<open>f_of_pixel p\<close> is the element that \<open>convertTo(..., CV_32F, 1.0 / 255)\<close> stores for the
  8-bit value \<open>p\<close>.
\<close>

record 'a float_arith =
  f_half :: 'a
  f_add_mul :: "'a \<Rightarrow> 'a \<Rightarrow> 'a \<Rightarrow> 'a"
  f_of_pixel :: "8 word \<Rightarrow> 'a"

text \<open>
  Arithmetic without rounding, on \<open>real\<close>. Single precision agrees with it wherever the
  operands and the results are representable, as they are in the concrete runs below.
\<close>

definition exact_arith :: "real float_arith" where
  "exact_arith = \<lparr>f_half = 1 / 2, f_add_mul = (\<lambda>v a w. v + a * w),
                   f_of_pixel = (\<lambda>p. real (unat p) / 255)\<rparr>"

section \<open>placeWatermark\<close>

text \<open>
  The first half of \<open>placeWatermark\<close>: the coordinate that will be perturbed. A copy
  \<open>temp\<close> of the block gets a zero written at the location of the block's maximum,
  and the location of the maximum of \<open>temp\<close> is the result. For an empty block the
  library has no location inside the matrix to report, and the access that follows
  is outside the matrix.
\<close>

definition placeWatermark_loc :: "('a::{linorder,zero}) Mat \<Rightarrow> error + Point" where
  "placeWatermark_loc Vi =
     (let temp = Vi in
      case minMaxLoc Vi of
        None \<Rightarrow> Inl OutOfRange
      | Some max_loc \<Rightarrow>
          (case Mat_set temp max_loc 0 of
             Inl e \<Rightarrow> Inl e
           | Inr temp' \<Rightarrow>
               (case minMaxLoc temp' of
                  None \<Rightarrow> Inl OutOfRange
                | Some max_loc' \<Rightarrow> Inr max_loc')))"

text \<open>
  The whole function: the element at that coordinate is replaced by the single-precision
  value of \<open>Vi.at<float>(max_loc) + alpha * W\<close>, with \<open>alpha = 0.5\<close>.
\<close>

definition placeWatermark ::
  "'a float_arith \<Rightarrow> ('a::{linorder,zero}) Mat \<Rightarrow> 'a \<Rightarrow> error + 'a Mat" where
  "placeWatermark ar Vi W =
     (case placeWatermark_loc Vi of
        Inl e \<Rightarrow> Inl e
      | Inr max_loc \<Rightarrow>
          (let alpha = f_half ar in
           case Mat_at Vi max_loc of
             Inl e \<Rightarrow> Inl e
           | Inr v \<Rightarrow> Mat_set Vi max_loc (f_add_mul ar v alpha W)))"

section \<open>The selection rule in the words of the specification\<close>

text \<open>
  The specification describes the selection as: find the coefficient of maximum
  magnitude; mask it out; find the coefficient of maximum magnitude among the
  remaining coefficients; of several coefficients with the same magnitude take the
  first in row-major order. \<open>spec_selectTarget\<close> follows these words, to be compared
  with \<open>placeWatermark_loc\<close>, which follows the source.
\<close>

fun spec_firstMaxMagnitude :: "(nat \<times> real) list \<Rightarrow> nat option" where
  "spec_firstMaxMagnitude [] = None"
| "spec_firstMaxMagnitude (q # qs) =
     Some (fst (foldl (\<lambda>best cell. if \<bar>snd cell\<bar> > \<bar>snd best\<bar> then cell else best) q qs))"

definition spec_selectTarget :: "real Mat \<Rightarrow> Point option" where
  "spec_selectTarget m =
     (let cells = zip [0..<rows m * cols m] (concat (elems m)) in
      case spec_firstMaxMagnitude cells of
        None \<Rightarrow> None
      | Some k \<Rightarrow>
          (case spec_firstMaxMagnitude (filter (\<lambda>cell. fst cell \<noteq> k) cells) of
             None \<Rightarrow> None
           | Some t \<Rightarrow> Some (Point (t mod cols m) (t div cols m))))"

section \<open>Regions of interest\<close>

text \<open>
  \<open>Mat(I, roi)\<close> and \<open>I(roi)\<close>: the sub-matrix of \<open>I\<close> with its top-left corner in column
  \<open>roi.x\<close>, row \<open>roi.y\<close>, \<open>roi.width\<close> columns wide and \<open>roi.height\<close> rows high. The
  library asserts that the rectangle lies inside the matrix. In the library the result
  shares its storage with \<open>I\<close>; here it holds the same values.
\<close>

definition Rect_inside :: "Rect \<Rightarrow> 'a Mat \<Rightarrow> bool" where
  "Rect_inside roi m =
     (rect_x roi + rect_width roi \<le> cols m \<and> rect_y roi + rect_height roi \<le> rows m)"

definition Mat_roi :: "'a Mat \<Rightarrow> Rect \<Rightarrow> error + 'a Mat" where
  "Mat_roi m roi =
     (if Rect_inside roi m
      then Inr (Mat_tabulate (rect_height roi) (rect_width roi)
                  (\<lambda>r c. Mat_elem m (rect_y roi + r) (rect_x roi + c)))
      else Inl CvAssert)"

text \<open>
  The pair of statements \<open>Mat dst_roi = I(roi); src.copyTo(dst_roi);\<close> with \<open>roi\<close> of the
  size of \<open>src\<close>: the elements of \<open>src\<close> are stored into the region \<open>roi\<close> of \<open>I\<close>, all
  other elements of \<open>I\<close> stay. Taking the region fails when it is not inside \<open>I\<close>.
\<close>

definition Rect_contains :: "Rect \<Rightarrow> nat \<Rightarrow> nat \<Rightarrow> bool" where
  "Rect_contains roi r c =
     (rect_y roi \<le> r \<and> r < rect_y roi + rect_height roi
      \<and> rect_x roi \<le> c \<and> c < rect_x roi + rect_width roi)"

definition Mat_copyTo_roi :: "'a Mat \<Rightarrow> 'a Mat \<Rightarrow> Rect \<Rightarrow> error + 'a Mat" where
  "Mat_copyTo_roi src I roi =
     (if Rect_inside roi I
      then Inr (Mat_tabulate (rows I) (cols I)
                  (\<lambda>r c. if Rect_contains roi r c
                         then Mat_elem src (r - rect_y roi) (c - rect_x roi)
                         else Mat_elem I r c))
      else Inl CvAssert)"

section \<open>createBlocks\<close>

text \<open>
  The two nested \<open>for\<close> loops of \<open>createBlocks\<close>; \<open>V\<close> is the vector the blocks are
  appended to. The counters advance by \<open>N\<close>, so with \<open>N = 0\<close> the loops never end:
  the result is an \<open>option\<close>, and \<open>None\<close> stands for a run that does not return.
\<close>

partial_function (option) createBlocks_inner ::
  "'a Mat \<Rightarrow> nat \<Rightarrow> nat \<Rightarrow> nat \<Rightarrow> 'a Mat list \<Rightarrow> (error + 'a Mat list) option" where
  "createBlocks_inner I N i j V =
     (if int j < int (rows I) - int N + 1 then
        (case Mat_roi I (Rect i j N N) of
           Inl e \<Rightarrow> Some (Inl e)
         | Inr Vij \<Rightarrow> createBlocks_inner I N i (j + N) (V @ [Vij]))
      else Some (Inr V))"

partial_function (option) createBlocks_outer ::
  "'a Mat \<Rightarrow> nat \<Rightarrow> nat \<Rightarrow> 'a Mat list \<Rightarrow> (error + 'a Mat list) option" where
  "createBlocks_outer I N i V =
     (if int i < int (rows I) - int N + 1 then
        (case createBlocks_inner I N i 0 V of
           None \<Rightarrow> None
         | Some (Inl e) \<Rightarrow> Some (Inl e)
         | Some (Inr V') \<Rightarrow> createBlocks_outer I N (i + N) V')
      else Some (Inr V))"

declare createBlocks_inner.simps [code]
declare createBlocks_outer.simps [code]

definition createBlocks :: "'a Mat list \<Rightarrow> 'a Mat \<Rightarrow> nat \<Rightarrow> (error + 'a Mat list) option" where
  "createBlocks V I N =
     (let M1 = rows I; M2 = cols I in
      if M1 \<noteq> M2 then Some (Inl (Exit 0))
      else createBlocks_outer I N 0 V)"

section \<open>assembleBlocks\<close>

text \<open>
  The loop of \<open>assembleBlocks\<close> from counter \<open>i\<close> on, with the image \<open>I\<close> as the state.
  \<open>(int)floor(i / n)\<close> is the integer quotient; the rectangle has \<open>x = row_num * V[i].cols\<close>
  and \<open>y = col_num * V[i].rows\<close>.
\<close>

function assembleBlocks_loop :: "'a Mat list \<Rightarrow> nat \<Rightarrow> nat \<Rightarrow> 'a Mat \<Rightarrow> error + 'a Mat" where
  "assembleBlocks_loop V n i I =
     (if i < length V then
        (if n = 0 then Inl DivByZero
         else
           (let row_num = i div n;
                col_num = i mod n
            in case Mat_copyTo_roi (V ! i) I
                      (Rect (row_num * cols (V ! i)) (col_num * rows (V ! i))
                            (cols (V ! i)) (rows (V ! i))) of
                 Inl e \<Rightarrow> Inl e
               | Inr I' \<Rightarrow> assembleBlocks_loop V n (i + 1) I'))
      else Inr I)"
  by pat_completeness auto
termination
  by (relation "measure (\<lambda>(V, n, i, I). length V - i)") auto

declare assembleBlocks_loop.simps [simp del]

definition assembleBlocks :: "'a Mat list \<Rightarrow> 'a Mat \<Rightarrow> nat \<Rightarrow> error + 'a Mat" where
  "assembleBlocks V I n = assembleBlocks_loop V n 0 I"

section \<open>The program around them\<close>

text \<open>
  What \<open>main\<close> takes from outside the repository is collected in an environment:
  the decoder \<open>imread\<close> (an 8-bit grey image, empty when the file cannot be read),
  \<open>getOptimalDFTSize\<close>, the random values that \<open>randu\<close> stores into the watermark,
  the transforms \<open>dct\<close> and \<open>idct\<close>, which may fail, and the single-precision
  arithmetic of the machine.
\<close>

record 'a env =
  imread :: "string \<Rightarrow> 8 word Mat"
  getOptimalDFTSize :: "nat \<Rightarrow> nat"
  randu :: "nat \<Rightarrow> nat \<Rightarrow> 'a"
  dct :: "'a Mat \<Rightarrow> error + 'a Mat"
  idct :: "'a Mat \<Rightarrow> error + 'a Mat"
  arith :: "'a float_arith"

text \<open>
  \<open>copyMakeBorder(src, dst, top, bottom, left, right, BORDER_CONSTANT, Scalar::all(0))\<close>:
  \<open>src\<close> surrounded by borders of zeros; the library asserts that no border is negative.
\<close>

definition copyMakeBorder :: "('a::zero) Mat \<Rightarrow> int \<Rightarrow> int \<Rightarrow> int \<Rightarrow> int \<Rightarrow> error + 'a Mat" where
  "copyMakeBorder src topB bottomB leftB rightB =
     (if topB < 0 \<or> bottomB < 0 \<or> leftB < 0 \<or> rightB < 0 then Inl CvAssert
      else Inr (Mat_tabulate (rows src + nat topB + nat bottomB) (cols src + nat leftB + nat rightB)
                  (\<lambda>r c. if nat topB \<le> r \<and> r < nat topB + rows src
                           \<and> nat leftB \<le> c \<and> c < nat leftB + cols src
                         then Mat_elem src (r - nat topB) (c - nat leftB)
                         else 0)))"

definition processImageFromFile :: "'a env \<Rightarrow> string \<Rightarrow> error + 8 word Mat" where
  "processImageFromFile env fileName =
     (let image = imread env fileName in
      if Mat_empty image then Inl (Exit 0)
      else
        (let M = getOptimalDFTSize env (rows image);
             N = getOptimalDFTSize env (cols image)
         in if M \<noteq> N then Inl (Exit 0)
            else copyMakeBorder image 0 (int M - int (rows image)) 0 (int N - int (cols image))))"

text \<open>\<open>createWatermark\<close>: an \<open>n\<close> by \<open>n\<close> matrix filled by \<open>randu\<close>.\<close>

definition createWatermark :: "'a env \<Rightarrow> nat \<Rightarrow> 'a Mat" where
  "createWatermark env n = Mat_tabulate n n (randu env)"

text \<open>\<open>m.convertTo(dst, CV_32F, 1.0 / 255)\<close> on an 8-bit matrix.\<close>

definition convertTo_32F :: "'a float_arith \<Rightarrow> 8 word Mat \<Rightarrow> 'a Mat" where
  "convertTo_32F ar m =
     \<lparr>rows = rows m, cols = cols m, elems = map (map (f_of_pixel ar)) (elems m)\<rparr>"

text \<open>The loop of \<open>main\<close> that transforms every block (\<open>for (Mat Vi : V)\<close>).\<close>

fun main_dct_loop :: "'a env \<Rightarrow> 8 word Mat list \<Rightarrow> 'a Mat list \<Rightarrow> error + 'a Mat list" where
  "main_dct_loop env [] Vdct = Inr Vdct"
| "main_dct_loop env (Vi # V) Vdct =
     (case dct env (convertTo_32F (arith env) Vi) of
        Inl e \<Rightarrow> Inl e
      | Inr Vti \<Rightarrow> main_dct_loop env V (Vdct @ [Vti]))"

text \<open>
  The loop of \<open>main\<close> that embeds the watermark: block \<open>i\<close> receives
  \<open>W.at<float>(row_num, col_num)\<close> with \<open>row_num = i / n\<close> and \<open>col_num = i % n\<close>.
\<close>

function main_embed_loop ::
  "'a float_arith \<Rightarrow> ('a::{linorder,zero}) Mat \<Rightarrow> nat \<Rightarrow> nat \<Rightarrow> 'a Mat list \<Rightarrow> error + 'a Mat list" where
  "main_embed_loop ar W n i Vdct =
     (if i < length Vdct then
        (if n = 0 then Inl DivByZero
         else
           (let row_num = i div n;
                col_num = i mod n
            in case Mat_at_rc W row_num col_num of
                 Inl e \<Rightarrow> Inl e
               | Inr w \<Rightarrow>
                   (case placeWatermark ar (Vdct ! i) w of
                      Inl e \<Rightarrow> Inl e
                    | Inr Vi \<Rightarrow> main_embed_loop ar W n (i + 1) (Vdct[i := Vi]))))
      else Inr Vdct)"
  by pat_completeness auto
termination
  by (relation "measure (\<lambda>(ar, W, n, i, Vdct). length Vdct - i)") auto

declare main_embed_loop.simps [simp del]

text \<open>The loop of \<open>main\<close> that transforms every block back (\<open>for (Mat Vti : Vdct)\<close>).\<close>

fun main_idct_loop :: "'a env \<Rightarrow> 'a Mat list \<Rightarrow> 'a Mat list \<Rightarrow> error + 'a Mat list" where
  "main_idct_loop env [] D = Inr D"
| "main_idct_loop env (Vti # Vdct) D =
     (case idct env Vti of
        Inl e \<Rightarrow> Inl e
      | Inr Di \<Rightarrow> main_idct_loop env Vdct (D @ [Di]))"

text \<open>
  \<open>main\<close> from its first line to the point where the image watermarked on the host
  has been written. The result is the list of the files written so far, in order,
  and how the run went on: \<open>Stopped e\<close> when it ended with \<open>e\<close>, and
  \<open>HostDone Vdct Id\<close> when it got that far, with the values that the variables \<open>Vdct\<close>
  (the blocks after the embedding loop) and \<open>Id\<close> (the reassembled image) then hold.
  What follows in the source repeats the embedding with routines of
  the CUDA part for comparison and writes no file. \<open>None\<close> is a run that does
  not return from \<open>createBlocks\<close>. \<open>argv\<close> is the argument vector, \<open>argc\<close> its length.
\<close>

datatype 'a progress = Stopped error | HostDone "'a Mat list" "'a Mat"

definition main ::
  "('a::{linorder,zero}) env \<Rightarrow> string list \<Rightarrow> (string list \<times> 'a progress) option" where
  "main env argv =
     (if length argv \<noteq> 2 then Some ([], Stopped (Exit (- 1)))
      else
        (case processImageFromFile env (argv ! 1) of
           Inl e \<Rightarrow> Some ([], Stopped e)
         | Inr I \<Rightarrow>
             (let n = 8;
                  W = createWatermark env n;
                  files1 = [''watermark.png''];
                  N = rows I div n
              in case createBlocks [] I N of
                   None \<Rightarrow> None
                 | Some (Inl e) \<Rightarrow> Some (files1, Stopped e)
                 | Some (Inr V) \<Rightarrow>
                     (case main_dct_loop env V [] of
                        Inl e \<Rightarrow> Some (files1, Stopped e)
                      | Inr Vdct \<Rightarrow>
                          (case assembleBlocks Vdct (Mat_zeros 512 512) n of
                             Inl e \<Rightarrow> Some (files1, Stopped e)
                           | Inr Idct \<Rightarrow>
                               (let files2 = files1 @ [''dcts.png''] in
                                case main_embed_loop (arith env) W n 0 Vdct of
                                  Inl e \<Rightarrow> Some (files2, Stopped e)
                                | Inr Vdct' \<Rightarrow>
                                    (case main_idct_loop env Vdct' [] of
                                       Inl e \<Rightarrow> Some (files2, Stopped e)
                                     | Inr D \<Rightarrow>
                                         (case assembleBlocks D (Mat_zeros 512 512) n of
                                            Inl e \<Rightarrow> Some (files2, Stopped e)
                                          | Inr Id_img \<Rightarrow>
                                              Some (files2 @ [''lena_reassembled.png''],
                                                    HostDone Vdct' Id_img)))))))))"

section \<open>Notions used in the statements\<close>

text \<open>
  \<open>tile_at I N a b\<close> is the \<open>N\<close> by \<open>N\<close> block of \<open>I\<close> whose top-left corner lies in column
  \<open>a * N\<close> and row \<open>b * N\<close>: the value of \<open>Mat(I, Rect(a * N, b * N, N, N))\<close>.
  \<open>assembleBlocks_rect V n i\<close> is the rectangle that \<open>assembleBlocks\<close> builds for block \<open>i\<close>.
\<close>

definition tile_at :: "'a Mat \<Rightarrow> nat \<Rightarrow> nat \<Rightarrow> nat \<Rightarrow> 'a Mat" where
  "tile_at I N a b = Mat_tabulate N N (\<lambda>r c. Mat_elem I (b * N + r) (a * N + c))"

definition assembleBlocks_rect :: "'a Mat list \<Rightarrow> nat \<Rightarrow> nat \<Rightarrow> Rect" where
  "assembleBlocks_rect V n i =
     Rect ((i div n) * cols (V ! i)) ((i mod n) * rows (V ! i)) (cols (V ! i)) (rows (V ! i))"

text \<open>
  The sizes that \<open>getOptimalDFTSize\<close> returns are, by the library's documentation, the
  numbers whose only prime factors are 2, 3 and 5. \<open>strip_factor p m\<close> divides \<open>m\<close> by
  \<open>p\<close> as often as it goes.
\<close>

function strip_factor :: "nat \<Rightarrow> nat \<Rightarrow> nat" where
  "strip_factor p m = (if 1 < p \<and> 0 < m \<and> m mod p = 0 then strip_factor p (m div p) else m)"
  by pat_completeness auto
termination
  by (relation "measure (\<lambda>(p, m). m)") auto

declare strip_factor.simps [simp del]

definition is_optimalDFTSize :: "nat \<Rightarrow> bool" where
  "is_optimalDFTSize m = (strip_factor 5 (strip_factor 3 (strip_factor 2 m)) = 1)"

section \<open>The location of the maximum lies inside the matrix\<close>









section \<open>The coordinate that placeWatermark perturbs\<close>

text \<open>
  C1 (the perturbed coordinate is never the DC position (0,0)). The source announces
  in its comment that the DC component is excluded, but the second search runs over
  the whole copy, the zeroed cell included, and compares signed values. On the block
  with coefficients 3/2, -1/2 / -1/2, -1/2 the maximum is the DC term; once it is
  zeroed no coefficient is greater than zero, the search reports the DC position
  again, and the watermark is added to the DC term. Every value of this run is
  representable in single precision and the product and the sum are exact.
\<close>

theorem placeWatermark_perturbs_DC:
  "placeWatermark_loc
     \<lparr>rows = 2, cols = 2, elems = [[3 / 2, - 1 / 2], [- 1 / 2, - 1 / 2 :: real]]\<rparr>
     = Inr (Point 0 0)
   \<and> placeWatermark exact_arith
        \<lparr>rows = 2, cols = 2, elems = [[3 / 2, - 1 / 2], [- 1 / 2, - 1 / 2]]\<rparr> 1
     = Inr \<lparr>rows = 2, cols = 2, elems = [[2, - 1 / 2], [- 1 / 2, - 1 / 2]]\<rparr>"
  by (simp add: placeWatermark_def placeWatermark_loc_def minMaxLoc_def maxIdx_def
      Mat_set_def Mat_at_def Mat_at_rc_def Mat_elem_def exact_arith_def)

text \<open>
  C2 (the target is the coefficient of second-largest magnitude, ties broken by
  row-major order). On the block 4, -3 / 1, 0 the rule in the words of the
  specification masks the 4 and takes the -3 in row 0, column 1; the source compares
  signed values and takes the 1 in row 1, column 0.
\<close>

theorem placeWatermark_loc_not_by_magnitude:
  "placeWatermark_loc \<lparr>rows = 2, cols = 2, elems = [[4, - 3], [1, 0 :: real]]\<rparr>
     = Inr (Point 0 1)
   \<and> spec_selectTarget \<lparr>rows = 2, cols = 2, elems = [[4, - 3], [1, 0]]\<rparr> = Some (Point 1 0)"
  by (simp add: placeWatermark_loc_def minMaxLoc_def maxIdx_def Mat_set_def
      spec_selectTarget_def upt_rec)

text \<open>
  C5 (on a block of zeros the selector picks row 0, column 1). The source picks the
  DC position: every element of the all-zero 8 by 8 block equals the maximum, the
  first search reports (0,0), writing zero there changes nothing, and the second
  search reports (0,0) again.
\<close>

theorem placeWatermark_loc_zero_block:
  "placeWatermark_loc (Mat_zeros 8 8 :: real Mat) = Inr (Point 0 0)"
  by code_simp

section \<open>The effect of placeWatermark on the block\<close>




section \<open>Failing runs\<close>

text \<open>
  C7 (every failing input ends the run with a non-zero status before any file is
  written). No file is written on any of the three paths, and a missing argument
  gives the status -1; but a file that cannot be decoded (\<open>imread\<close> returns an empty
  matrix) and an image whose padded sides differ both end in \<open>exit(0)\<close>.
\<close>

theorem main_failure_status_zero:
  "main \<lparr>imread = (\<lambda>f. \<lparr>rows = 0, cols = 0, elems = []\<rparr>), getOptimalDFTSize = (\<lambda>k. k),
          randu = (\<lambda>r c. 0), dct = Inr, idct = Inr, arith = exact_arith\<rparr>
        [''DigiMark'', ''missing.png'']
     = Some ([], Stopped (Exit 0))
   \<and> main \<lparr>imread = (\<lambda>f. \<lparr>rows = 1, cols = 2, elems = [[7, 9]]\<rparr>), getOptimalDFTSize = (\<lambda>k. k),
            randu = (\<lambda>r c. 0), dct = Inr, idct = Inr, arith = exact_arith\<rparr>
        [''DigiMark'', ''wide.png'']
     = Some ([], Stopped (Exit 0))
   \<and> main \<lparr>imread = (\<lambda>f. \<lparr>rows = 1, cols = 2, elems = [[7, 9]]\<rparr>), getOptimalDFTSize = (\<lambda>k. k),
            randu = (\<lambda>r c. 0), dct = Inr, idct = Inr, arith = exact_arith\<rparr>
        [''DigiMark'']
     = Some ([], Stopped (Exit (- 1)))"
  by (simp add: main_def processImageFromFile_def Mat_empty_def)

section \<open>What createBlocks returns\<close>

lemma Mat_tabulate_sel [simp]:
  "rows (Mat_tabulate h w f) = h" "cols (Mat_tabulate h w f) = w"
  by (simp_all add: Mat_tabulate_def)

lemma Mat_tabulate_wf [simp]: "Mat_wf (Mat_tabulate h w f)"
  by (simp add: Mat_tabulate_def Mat_wf_def list_all_iff)

lemma Mat_tabulate_elem [simp]:
  "r < h \<Longrightarrow> c < w \<Longrightarrow> Mat_elem (Mat_tabulate h w f) r c = f r c"
  by (simp add: Mat_tabulate_def Mat_elem_def)

lemma grid_step_inside:
  fixes N :: nat
  assumes "k < M div N"
  shows "k * N + N \<le> M"
proof -
  have "Suc k * N \<le> (M div N) * N" using assms by (intro mult_le_mono1) simp
  also have "\<dots> \<le> M" by simp
  finally show ?thesis by simp
qed

lemma grid_end_outside:
  fixes N :: nat
  assumes "0 < N"
  shows "\<not> (M div N) * N + N \<le> M"
proof -
  have "M mod N < N" using assms by simp
  moreover have "M = (M div N) * N + M mod N" by simp
  ultimately show ?thesis by linarith
qed

lemma loop_cond: "(int j < int M - int N + 1) = (j + N \<le> M)"
  by linarith

lemma createBlocks_inner_result:
  assumes "0 < N" and "a * N + N \<le> cols I" and "k \<le> rows I div N"
  shows "createBlocks_inner I N (a * N) (k * N) V
           = Some (Inr (V @ map (\<lambda>b. tile_at I N a b) [k..<rows I div N]))"
  using assms(3)
proof (induction "rows I div N - k" arbitrary: k V)
  case 0
  then have k: "k = rows I div N" by simp
  have "\<not> k * N + N \<le> rows I"
    using grid_end_outside[OF assms(1), of "rows I"] k by simp
  then have cond: "\<not> int (k * N) < int (rows I) - int N + 1"
    unfolding loop_cond .
  show ?case
    apply (subst createBlocks_inner.simps)
    apply (simp only: cond if_False)
    apply (simp add: k)
    done
next
  case (Suc d)
  then have lt: "k < rows I div N" by simp
  from grid_step_inside[OF lt] have inside: "k * N + N \<le> rows I" .
  then have cond: "int (k * N) < int (rows I) - int N + 1"
    unfolding loop_cond .
  have roi: "Mat_roi I (Rect (a * N) (k * N) N N) = Inr (tile_at I N a k)"
    using inside assms(2) by (simp add: Mat_roi_def Rect_inside_def tile_at_def)
  have next_j: "k * N + N = Suc k * N" by simp
  have IH: "createBlocks_inner I N (a * N) (Suc k * N) (V @ [tile_at I N a k])
              = Some (Inr ((V @ [tile_at I N a k]) @ map (\<lambda>b. tile_at I N a b) [Suc k..<rows I div N]))"
    using Suc.hyps(1)[of "Suc k"] Suc.hyps(2) lt by simp
  show ?case
    apply (subst createBlocks_inner.simps)
    apply (simp only: cond if_True roi sum.case next_j IH)
    apply (simp add: upt_conv_Cons[OF lt])
    done
qed

lemma createBlocks_outer_result:
  assumes "0 < N" and "cols I = rows I" and "a \<le> rows I div N"
  shows "createBlocks_outer I N (a * N) V
           = Some (Inr (V @ concat (map (\<lambda>a. map (\<lambda>b. tile_at I N a b) [0..<rows I div N])
                                        [a..<rows I div N])))"
  using assms(3)
proof (induction "rows I div N - a" arbitrary: a V)
  case 0
  then have a: "a = rows I div N" by simp
  have "\<not> a * N + N \<le> rows I"
    using grid_end_outside[OF assms(1), of "rows I"] a by simp
  then have cond: "\<not> int (a * N) < int (rows I) - int N + 1"
    unfolding loop_cond .
  show ?case
    apply (subst createBlocks_outer.simps)
    apply (simp only: cond if_False)
    apply (simp add: a)
    done
next
  case (Suc d)
  then have lt: "a < rows I div N" by simp
  from grid_step_inside[OF lt] have inside: "a * N + N \<le> rows I" .
  then have cond: "int (a * N) < int (rows I) - int N + 1"
    unfolding loop_cond .
  have inner: "createBlocks_inner I N (a * N) 0 V
                 = Some (Inr (V @ map (\<lambda>b. tile_at I N a b) [0..<rows I div N]))"
    using createBlocks_inner_result[OF assms(1), of a I 0 V] inside assms(2) by simp
  have next_i: "a * N + N = Suc a * N" by simp
  have IH: "createBlocks_outer I N (Suc a * N) (V @ map (\<lambda>b. tile_at I N a b) [0..<rows I div N])
              = Some (Inr ((V @ map (\<lambda>b. tile_at I N a b) [0..<rows I div N])
                   @ concat (map (\<lambda>a. map (\<lambda>b. tile_at I N a b) [0..<rows I div N])
                                        [Suc a..<rows I div N])))"
    using Suc.hyps(1)[of "Suc a"] Suc.hyps(2) lt by simp
  show ?case
    apply (subst createBlocks_outer.simps)
    apply (simp only: cond if_True inner option.case sum.case next_i IH)
    apply (simp add: upt_conv_Cons[OF lt])
    done
qed

lemma concat_grid:
  "concat (map (\<lambda>a. map (f a) [0..<G]) [0..<A])
     = map (\<lambda>k. f (k div G) (k mod G)) [0..<A * G]"
proof (induction A)
  case 0
  show ?case by simp
next
  case (Suc A)
  have last: "map (\<lambda>k. f (k div G) (k mod G)) [A * G..<A * G + G] = map (f A) [0..<G]"
  proof (rule nth_equalityI)
    show "length (map (\<lambda>k. f (k div G) (k mod G)) [A * G..<A * G + G]) = length (map (f A) [0..<G])"
      by simp
  next
    fix i assume "i < length (map (\<lambda>k. f (k div G) (k mod G)) [A * G..<A * G + G])"
    then have i: "i < G" by simp
    then have "(A * G + i) div G = A" "(A * G + i) mod G = i" by simp_all
    then show "map (\<lambda>k. f (k div G) (k mod G)) [A * G..<A * G + G] ! i = map (f A) [0..<G] ! i"
      using i by simp
  qed
  have split: "[0..<Suc A * G] = [0..<A * G] @ [A * G..<A * G + G]"
    using upt_add_eq_append[of 0 "A * G" G] by (simp add: add.commute)
  have "concat (map (\<lambda>a. map (f a) [0..<G]) [0..<Suc A])
          = concat (map (\<lambda>a. map (f a) [0..<G]) [0..<A]) @ map (f A) [0..<G]"
    by simp
  also have "\<dots> = map (\<lambda>k. f (k div G) (k mod G)) [0..<A * G] @ map (f A) [0..<G]"
    by (simp only: Suc.IH)
  also have "\<dots> = map (\<lambda>k. f (k div G) (k mod G)) ([0..<A * G] @ [A * G..<A * G + G])"
    by (simp only: map_append last)
  finally show ?case by (simp only: split)
qed

lemma createBlocks_result:
  assumes "0 < N" and "cols I = rows I"
  shows "createBlocks V I N
           = Some (Inr (V @ map (\<lambda>k. tile_at I N (k div (rows I div N)) (k mod (rows I div N)))
                              [0..<(rows I div N) * (rows I div N)]))"
proof -
  have "createBlocks V I N = createBlocks_outer I N 0 V"
    using assms(2) by (simp add: createBlocks_def)
  also have "\<dots> = createBlocks_outer I N (0 * N) V" by simp
  also have "\<dots> = Some (Inr (V @ concat (map (\<lambda>a. map (\<lambda>b. tile_at I N a b) [0..<rows I div N])
                                        [0..<rows I div N])))"
    by (rule createBlocks_outer_result[OF assms]) simp
  finally show ?thesis by (simp only: concat_grid)
qed

section \<open>What assembleBlocks does to the destination\<close>

lemma assembleBlocks_loop_done:
  "\<not> i < length V \<Longrightarrow> assembleBlocks_loop V n i I = Inr I"
  by (subst assembleBlocks_loop.simps) simp

lemma assembleBlocks_loop_step:
  "i < length V \<Longrightarrow> 0 < n \<Longrightarrow>
   assembleBlocks_loop V n i I =
     (case Mat_copyTo_roi (V ! i) I (assembleBlocks_rect V n i) of
        Inl e \<Rightarrow> Inl e
      | Inr I' \<Rightarrow> assembleBlocks_loop V n (i + 1) I')"
  by (subst assembleBlocks_loop.simps) (simp add: assembleBlocks_rect_def Let_def)

lemma assembleBlocks_loop_div0:
  "i < length V \<Longrightarrow> assembleBlocks_loop V 0 i I = Inl DivByZero"
  by (subst assembleBlocks_loop.simps) simp

lemma Rect_inside_dims:
  "rows I' = rows I \<Longrightarrow> cols I' = cols I \<Longrightarrow> Rect_inside roi I' = Rect_inside roi I"
  by (simp add: Rect_inside_def)

lemma Mat_copyTo_roi_Inr:
  assumes "Mat_copyTo_roi src I roi = Inr I'"
  shows "Rect_inside roi I" and "rows I' = rows I" and "cols I' = cols I" and "Mat_wf I'"
    and "r < rows I \<Longrightarrow> c < cols I \<Longrightarrow>
         Mat_elem I' r c = (if Rect_contains roi r c
                            then Mat_elem src (r - rect_y roi) (c - rect_x roi)
                            else Mat_elem I r c)"
  using assms by (auto simp: Mat_copyTo_roi_def split: if_splits)

text \<open>A rectangle outside the destination stops the loop with the library's assertion.\<close>

lemma assembleBlocks_loop_outside:
  assumes "0 < n" and "k \<le> i" and "i < length V"
    and "\<not> Rect_inside (assembleBlocks_rect V n i) I"
  shows "assembleBlocks_loop V n k I = Inl CvAssert"
  using assms(2,4)
proof (induction "i - k" arbitrary: k I)
  case 0
  then have "k = i" by simp
  then show ?case
    using assms(1,3) 0(3)
    by (simp add: assembleBlocks_loop_step Mat_copyTo_roi_def)
next
  case (Suc d)
  then have lt: "k < i" by simp
  then have kl: "k < length V" using assms(3) by simp
  show ?case
  proof (cases "Mat_copyTo_roi (V ! k) I (assembleBlocks_rect V n k)")
    case (Inl e)
    then have "e = CvAssert" by (auto simp: Mat_copyTo_roi_def split: if_splits)
    with Inl show ?thesis using kl assms(1) by (simp add: assembleBlocks_loop_step)
  next
    case (Inr I')
    have "\<not> Rect_inside (assembleBlocks_rect V n i) I'"
      using Suc.prems(2) Mat_copyTo_roi_Inr(2,3)[OF Inr] by (simp add: Rect_inside_def)
    moreover have "d = i - (k + 1)" "k + 1 \<le> i" using Suc.hyps(2) lt by simp_all
    ultimately have "assembleBlocks_loop V n (k + 1) I' = Inl CvAssert"
      using Suc.hyps(1) by blast
    with Inr show ?thesis using kl assms(1) by (simp add: assembleBlocks_loop_step)
  qed
qed

text \<open>When every rectangle lies inside the destination the loop returns an image.\<close>

lemma assembleBlocks_loop_succeeds:
  assumes "0 < n"
    and "\<And>i. k \<le> i \<Longrightarrow> i < length V \<Longrightarrow> Rect_inside (assembleBlocks_rect V n i) I"
  shows "\<exists>R. assembleBlocks_loop V n k I = Inr R"
  using assms(2)
proof (induction "length V - k" arbitrary: k I)
  case 0
  then show ?case by (simp add: assembleBlocks_loop_done)
next
  case (Suc d)
  then have kl: "k < length V" by simp
  have "Rect_inside (assembleBlocks_rect V n k) I" using Suc.prems kl by simp
  then obtain I' where I': "Mat_copyTo_roi (V ! k) I (assembleBlocks_rect V n k) = Inr I'"
    by (simp add: Mat_copyTo_roi_def)
  have "\<And>i. k + 1 \<le> i \<Longrightarrow> i < length V \<Longrightarrow> Rect_inside (assembleBlocks_rect V n i) I'"
    using Suc.prems Mat_copyTo_roi_Inr(2,3)[OF I'] by (simp add: Rect_inside_def)
  moreover have "d = length V - (k + 1)" using Suc.hyps(2) by simp
  ultimately obtain R where "assembleBlocks_loop V n (k + 1) I' = Inr R"
    using Suc.hyps(1) by blast
  with I' show ?case using kl assms(1) by (simp add: assembleBlocks_loop_step)
qed

text \<open>The result has the size of the destination; elements that no rectangle contains stay.\<close>

lemma assembleBlocks_loop_frame:
  assumes "assembleBlocks_loop V n k I = Inr R"
  shows "rows R = rows I \<and> cols R = cols I
         \<and> (r < rows I \<longrightarrow> c < cols I \<longrightarrow>
              (\<forall>i. k \<le> i \<longrightarrow> i < length V \<longrightarrow> \<not> Rect_contains (assembleBlocks_rect V n i) r c) \<longrightarrow>
              Mat_elem R r c = Mat_elem I r c)"
  using assms
proof (induction "length V - k" arbitrary: k I)
  case 0
  then show ?case by (simp add: assembleBlocks_loop_done)
next
  case (Suc d)
  then have kl: "k < length V" by simp
  have n: "0 < n"
    using Suc.prems kl assembleBlocks_loop_div0[of k V I] by (cases "n = 0") auto
  from Suc.prems obtain I' where I': "Mat_copyTo_roi (V ! k) I (assembleBlocks_rect V n k) = Inr I'"
    and rest: "assembleBlocks_loop V n (k + 1) I' = Inr R"
    using kl n by (auto simp: assembleBlocks_loop_step split: sum.splits)
  have "d = length V - (k + 1)" using Suc.hyps(2) by simp
  from Suc.hyps(1)[OF this rest]
  have IH: "rows R = rows I' \<and> cols R = cols I'
         \<and> (r < rows I' \<longrightarrow> c < cols I' \<longrightarrow>
              (\<forall>i. k + 1 \<le> i \<longrightarrow> i < length V \<longrightarrow> \<not> Rect_contains (assembleBlocks_rect V n i) r c) \<longrightarrow>
              Mat_elem R r c = Mat_elem I' r c)" .
  note c = Mat_copyTo_roi_Inr[OF I']
  show ?case using IH c(2,3) c(5)[of r c] kl by auto
qed

lemma cell_iff:
  fixes N :: nat
  assumes "0 < N"
  shows "(a * N \<le> r \<and> r < a * N + N) = (r div N = a)"
proof
  assume "a * N \<le> r \<and> r < a * N + N"
  then show "r div N = a"
    by (intro div_nat_eqI) (simp_all add: mult.commute)
next
  assume e: "r div N = a"
  have "r mod N < N" using assms by simp
  moreover have "r = (r div N) * N + r mod N" by simp
  ultimately show "a * N \<le> r \<and> r < a * N + N" using e by (metis le_add1 nat_add_left_cancel_less)
qed

lemma cell_offset:
  fixes N :: nat
  shows "r div N = a \<Longrightarrow> r - a * N = r mod N"
  by (metis add_diff_cancel_left' div_mult_mod_eq)

lemma grid_index_iff:
  fixes n :: nat
  assumes "0 < n"
  shows "(k mod n = b \<and> k div n = a) = (b < n \<and> a * n + b = k)"
proof
  assume "k mod n = b \<and> k div n = a"
  then show "b < n \<and> a * n + b = k" using assms by auto
next
  assume "b < n \<and> a * n + b = k"
  then show "k mod n = b \<and> k div n = a" by auto
qed

lemma uniform_rect_contains:
  assumes "0 < n" and "0 < N" and "rows (V ! k) = N" and "cols (V ! k) = N"
  shows "Rect_contains (assembleBlocks_rect V n k) r c
           = (r div N < n \<and> (c div N) * n + r div N = k)"
proof -
  have "Rect_contains (assembleBlocks_rect V n k) r c
          = ((k mod n) * N \<le> r \<and> r < (k mod n) * N + N \<and> (k div n) * N \<le> c \<and> c < (k div n) * N + N)"
    using assms(3,4) by (simp add: Rect_contains_def assembleBlocks_rect_def)
  also have "\<dots> = (r div N = k mod n \<and> c div N = k div n)"
    using cell_iff[OF assms(2), of "k mod n" r] cell_iff[OF assms(2), of "k div n" c] by blast
  also have "\<dots> = (k mod n = r div N \<and> k div n = c div N)" by auto
  also have "\<dots> = (r div N < n \<and> (c div N) * n + r div N = k)"
    by (rule grid_index_iff[OF assms(1)])
  finally show ?thesis .
qed

text \<open>
  With blocks of one size \<open>N\<close>, the element in row \<open>r\<close> and column \<open>c\<close> of the result comes
  from the block with index \<open>(c div N) * n + r div N\<close>, if the loop still had to place it.
\<close>

lemma assembleBlocks_loop_elem:
  assumes "0 < n" and "0 < N"
    and "\<And>j. j < length V \<Longrightarrow> rows (V ! j) = N \<and> cols (V ! j) = N"
    and "assembleBlocks_loop V n k I = Inr R" and "r < rows I" and "c < cols I"
  shows "Mat_elem R r c =
           (if r div N < n \<and> k \<le> (c div N) * n + r div N \<and> (c div N) * n + r div N < length V
            then Mat_elem (V ! ((c div N) * n + r div N)) (r mod N) (c mod N)
            else Mat_elem I r c)"
  using assms(4,5,6)
proof (induction "length V - k" arbitrary: k I)
  case 0
  then have nk: "\<not> k < length V" by simp
  have R: "R = I" using 0(2) by (simp add: assembleBlocks_loop_done[OF nk])
  have "\<not> (r div N < n \<and> k \<le> (c div N) * n + r div N \<and> (c div N) * n + r div N < length V)"
    using nk by linarith
  then show ?case by (simp only: R if_False)
next
  case (Suc d)
  then have kl: "k < length V" by simp
  from Suc.prems(1) obtain I' where I': "Mat_copyTo_roi (V ! k) I (assembleBlocks_rect V n k) = Inr I'"
    and rest: "assembleBlocks_loop V n (k + 1) I' = Inr R"
    using kl assms(1) by (auto simp: assembleBlocks_loop_step split: sum.splits)
  note c = Mat_copyTo_roi_Inr[OF I']
  have d: "d = length V - (k + 1)" using Suc.hyps(2) by simp
  have r': "r < rows I'" and c': "c < cols I'" using Suc.prems(2,3) c(2,3) by simp_all
  define j where "j = (c div N) * n + r div N"
  have IH: "Mat_elem R r c =
           (if r div N < n \<and> k + 1 \<le> j \<and> j < length V
            then Mat_elem (V ! j) (r mod N) (c mod N)
            else Mat_elem I' r c)"
    unfolding j_def by (rule Suc.hyps(1)[OF d rest r' c'])
  have dims: "rows (V ! k) = N" "cols (V ! k) = N" using assms(3)[OF kl] by simp_all
  have cont: "Rect_contains (assembleBlocks_rect V n k) r c = (r div N < n \<and> j = k)"
    unfolding j_def by (rule uniform_rect_contains[OF assms(1,2) dims])
  have here: "Mat_elem I' r c = (if r div N < n \<and> j = k
                                 then Mat_elem (V ! k) (r - (k mod n) * N) (c - (k div n) * N)
                                 else Mat_elem I r c)"
    using c(5)[OF Suc.prems(2,3)] cont dims by (simp add: assembleBlocks_rect_def)
  have off: "r div N < n \<and> j = k \<Longrightarrow> r - (k mod n) * N = r mod N \<and> c - (k div n) * N = c mod N"
  proof -
    assume a: "r div N < n \<and> j = k"
    then have "k mod n = r div N \<and> k div n = c div N"
      using grid_index_iff[OF assms(1), of k "r div N" "c div N"] by (simp add: j_def)
    then show ?thesis using cell_offset[of r N "k mod n"] cell_offset[of c N "k div n"] by simp
  qed
  show ?case
    unfolding j_def[symmetric]
    using IH here off kl by (cases "r div N < n \<and> j = k") auto
qed

lemma Mat_eqI:
  fixes A B :: "'a Mat"
  assumes "Mat_wf A" and "Mat_wf B" and "rows A = rows B" and "cols A = cols B"
    and "\<And>r c. r < rows A \<Longrightarrow> c < cols A \<Longrightarrow> Mat_elem A r c = Mat_elem B r c"
  shows "A = B"
proof -
  have "elems A = elems B"
  proof (rule nth_equalityI)
    show "length (elems A) = length (elems B)"
      using assms(1,2,3) by (simp add: Mat_wf_def)
  next
    fix r assume "r < length (elems A)"
    then have r: "r < rows A" using assms(1) by (simp add: Mat_wf_def)
    have la: "length (elems A ! r) = cols A"
      using assms(1) r by (simp add: Mat_wf_def list_all_length)
    have lb: "length (elems B ! r) = cols A"
      using assms(2,3,4) r by (simp add: Mat_wf_def list_all_length)
    show "elems A ! r = elems B ! r"
    proof (rule nth_equalityI)
      show "length (elems A ! r) = length (elems B ! r)" using la lb by simp
    next
      fix c assume "c < length (elems A ! r)"
      then have "c < cols A" using la by simp
      from assms(5)[OF r this] show "elems A ! r ! c = elems B ! r ! c"
        by (simp add: Mat_elem_def)
    qed
  qed
  then show ?thesis using assms(3,4) by (intro Mat.equality) simp_all
qed

lemma assembleBlocks_loop_wf:
  assumes "assembleBlocks_loop V n k I = Inr R" and "Mat_wf I"
  shows "Mat_wf R"
  using assms
proof (induction "length V - k" arbitrary: k I)
  case 0
  then show ?case by (simp add: assembleBlocks_loop_done)
next
  case (Suc d)
  then have kl: "k < length V" by simp
  have n: "0 < n"
    using Suc.prems(1) kl assembleBlocks_loop_div0[of k V I] by (cases "n = 0") auto
  from Suc.prems(1) obtain I' where I': "Mat_copyTo_roi (V ! k) I (assembleBlocks_rect V n k) = Inr I'"
    and rest: "assembleBlocks_loop V n (k + 1) I' = Inr R"
    using kl n by (auto simp: assembleBlocks_loop_step split: sum.splits)
  have "d = length V - (k + 1)" using Suc.hyps(2) by simp
  from Suc.hyps(1)[OF this rest Mat_copyTo_roi_Inr(4)[OF I']] show ?case .
qed

lemma tile_at_sel [simp]:
  "rows (tile_at I N a b) = N" "cols (tile_at I N a b) = N" "Mat_wf (tile_at I N a b)"
  by (simp_all add: tile_at_def)

lemma tile_at_elem:
  "r < N \<Longrightarrow> c < N \<Longrightarrow> Mat_elem (tile_at I N a b) r c = Mat_elem I (b * N + r) (a * N + c)"
  by (simp add: tile_at_def)

lemma tile_at_roi:
  assumes "a * N + N \<le> cols I" and "b * N + N \<le> rows I"
  shows "Mat_roi I (Rect (a * N) (b * N) N N) = Inr (tile_at I N a b)"
  using assms by (simp add: Mat_roi_def Rect_inside_def tile_at_def)

lemma grid_index_less:
  fixes G :: nat
  assumes "a < G" and "b < G"
  shows "a * G + b < G * G"
proof -
  have "a * G + b < a * G + G" using assms(2) by simp
  also have "\<dots> = Suc a * G" by simp
  also have "\<dots> \<le> G * G" using assms(1) by (intro mult_le_mono1) simp
  finally show ?thesis .
qed

section \<open>The number of blocks\<close>

text \<open>
  C8: for a square image of side \<open>M\<close> and a block size \<open>N\<close> with \<open>0 < N \<le> M\<close>,
  \<open>createBlocks\<close> returns, and returns exactly \<open>(M div N) * (M div N)\<close> blocks, each of
  them a full \<open>N\<close> by \<open>N\<close> matrix: what is left over beyond the last full block along
  either axis is in no block.
\<close>

theorem createBlocks_count:
  assumes "rows I = M" and "cols I = M" and "0 < N" and "N \<le> M"
  shows "\<exists>V. createBlocks [] I N = Some (Inr V)
           \<and> length V = (M div N) * (M div N)
           \<and> list_all (\<lambda>B. rows B = N \<and> cols B = N \<and> Mat_wf B) V"
proof -
  have "createBlocks [] I N
          = Some (Inr ([] @ map (\<lambda>k. tile_at I N (k div (rows I div N)) (k mod (rows I div N)))
                              [0..<(rows I div N) * (rows I div N)]))"
    by (rule createBlocks_result) (use assms in simp_all)
  then show ?thesis using assms(1) by (simp add: list_all_iff)
qed

theorem createBlocks_count_witness:
  "rows \<lparr>rows = 3, cols = 3, elems = [[1, 2, 3], [4, 5, 6], [7, 8, 9 :: nat]]\<rparr> = 3
   \<and> cols \<lparr>rows = 3, cols = 3, elems = [[1, 2, 3], [4, 5, 6], [7, 8, 9 :: nat]]\<rparr> = 3
   \<and> (0 :: nat) < 2 \<and> (2 :: nat) \<le> 3
   \<and> (\<exists>V. createBlocks [] \<lparr>rows = 3, cols = 3, elems = [[1, 2, 3], [4, 5, 6], [7, 8, 9 :: nat]]\<rparr> 2
              = Some (Inr V)
          \<and> length V = (3 div 2) * (3 div 2))"
  using createBlocks_count[of "\<lparr>rows = 3, cols = 3, elems = [[1, 2, 3], [4, 5, 6], [7, 8, 9 :: nat]]\<rparr>" 3 2]
  by auto

lemma createBlocks_nth:
  assumes "0 < N" and "cols I = rows I" and "createBlocks [] I N = Some (Inr V)"
  shows "length V = (rows I div N) * (rows I div N)"
    and "k < (rows I div N) * (rows I div N) \<Longrightarrow>
         V ! k = tile_at I N (k div (rows I div N)) (k mod (rows I div N))"
proof -
  have "createBlocks [] I N
          = Some (Inr ([] @ map (\<lambda>k. tile_at I N (k div (rows I div N)) (k mod (rows I div N)))
                              [0..<(rows I div N) * (rows I div N)]))"
    by (rule createBlocks_result[OF assms(1,2)])
  with assms(3) have V: "V = map (\<lambda>k. tile_at I N (k div (rows I div N)) (k mod (rows I div N)))
                              [0..<(rows I div N) * (rows I div N)]" by simp
  show "length V = (rows I div N) * (rows I div N)" by (simp add: V)
  show "k < (rows I div N) * (rows I div N) \<Longrightarrow>
         V ! k = tile_at I N (k div (rows I div N)) (k mod (rows I div N))"
    by (simp add: V)
qed

lemma grid_div_less:
  fixes G :: nat
  assumes "k < G * G"
  shows "k div G < G" and "k mod G < G"
proof -
  have G: "0 < G" using assms by (cases G) simp_all
  show "k div G < G" using assms G by (simp add: less_mult_imp_div_less)
  show "k mod G < G" using G by simp
qed

section \<open>Tiling followed by reassembly\<close>

text \<open>
  C4: for a square image \<open>I\<close> whose side \<open>M\<close> is a multiple of the block size \<open>N\<close>,
  \<open>createBlocks\<close> returns a list of blocks, and \<open>assembleBlocks\<close> on that list, a zero
  image of the same size and the grid width \<open>M div N\<close> returns \<open>I\<close> itself.
\<close>

theorem createBlocks_assembleBlocks_identity:
  assumes "Mat_wf I" and "rows I = M" and "cols I = M" and "0 < N" and "N dvd M"
  shows "\<exists>V. createBlocks [] I N = Some (Inr V)
           \<and> assembleBlocks V (Mat_zeros M M) (M div N) = Inr I"
proof -
  define G where "G = M div N"
  have GN: "G * N = M" using assms(5) by (simp add: G_def)
  have sq: "cols I = rows I" using assms(2,3) by simp
  obtain V where V: "createBlocks [] I N = Some (Inr V)"
    using createBlocks_result[OF assms(4) sq, of "[]"] by simp
  have len: "length V = G * G"
    using createBlocks_nth(1)[OF assms(4) sq V] assms(2) by (simp add: G_def)
  have nth: "\<And>k. k < G * G \<Longrightarrow> V ! k = tile_at I N (k div G) (k mod G)"
    using createBlocks_nth(2)[OF assms(4) sq V] assms(2) by (simp add: G_def)
  have dims: "\<And>j. j < length V \<Longrightarrow> rows (V ! j) = N \<and> cols (V ! j) = N"
    using len nth by simp
  show ?thesis
  proof (cases "M = 0")
    case True
    then have "G = 0" by (simp add: G_def)
    then have "V = []" using len by simp
    moreover have "Mat_zeros M M = I"
      using assms(1,2,3) True by (intro Mat_eqI) (simp_all add: Mat_zeros_def)
    ultimately show ?thesis
      using V by (simp add: assembleBlocks_def assembleBlocks_loop_done)
  next
    case False
    then have G: "0 < G" using GN by (cases G) simp_all
    have inside: "Rect_inside (assembleBlocks_rect V G i) (Mat_zeros M M)" if "i < length V" for i
    proof -
      have i: "i < G * G" using that len by simp
      have "(i div G) * N + N \<le> M" "(i mod G) * N + N \<le> M"
        using grid_step_inside[of "i div G" M N] grid_step_inside[of "i mod G" M N]
          grid_div_less[OF i] by (simp_all add: G_def)
      then show ?thesis
        using dims[OF that] by (simp add: Rect_inside_def assembleBlocks_rect_def Mat_zeros_def)
    qed
    then obtain R where R: "assembleBlocks_loop V G 0 (Mat_zeros M M) = Inr R"
      using assembleBlocks_loop_succeeds[OF G, of 0 V "Mat_zeros M M"] by blast
    have Rdims: "rows R = M" "cols R = M"
      using assembleBlocks_loop_frame[OF R] by (simp_all add: Mat_zeros_def)
    have Rwf: "Mat_wf R"
      by (rule assembleBlocks_loop_wf[OF R]) (simp add: Mat_zeros_def)
    have "R = I"
    proof (rule Mat_eqI[OF Rwf assms(1)])
      show "rows R = rows I" "cols R = cols I" using Rdims assms(2,3) by simp_all
    next
      fix r c assume "r < rows R" "c < cols R"
      then have r: "r < M" and c: "c < M" using Rdims by simp_all
      have rG: "r div N < G" and cG: "c div N < G"
        using r c GN assms(4) by (simp_all add: less_mult_imp_div_less)
      define j where "j = (c div N) * G + r div N"
      have jl: "j < G * G" unfolding j_def by (rule grid_index_less[OF cG rG])
      have jd: "j div G = c div N" "j mod G = r div N"
        using rG by (simp_all add: j_def)
      have "Mat_elem R r c = Mat_elem (V ! j) (r mod N) (c mod N)"
        using assembleBlocks_loop_elem[OF G assms(4) dims R, of r c] r c rG jl len
        by (simp add: j_def Mat_zeros_def)
      also have "\<dots> = Mat_elem (tile_at I N (c div N) (r div N)) (r mod N) (c mod N)"
        using nth[OF jl] jd by simp
      also have "\<dots> = Mat_elem I ((r div N) * N + r mod N) ((c div N) * N + c mod N)"
        using assms(4) by (simp add: tile_at_elem)
      also have "\<dots> = Mat_elem I r c" by simp
      finally show "Mat_elem R r c = Mat_elem I r c" .
    qed
    then show ?thesis using V R by (simp add: assembleBlocks_def G_def)
  qed
qed

theorem createBlocks_assembleBlocks_identity_witness:
  "Mat_wf \<lparr>rows = 4, cols = 4,
            elems = [[1, 2, 3, 4], [5, 6, 7, 8], [9, 10, 11, 12], [13, 14, 15, 16 :: nat]]\<rparr>
   \<and> (0 :: nat) < 2 \<and> (2 :: nat) dvd 4
   \<and> (\<exists>V. createBlocks []
              \<lparr>rows = 4, cols = 4,
                elems = [[1, 2, 3, 4], [5, 6, 7, 8], [9, 10, 11, 12], [13, 14, 15, 16 :: nat]]\<rparr> 2
              = Some (Inr V)
          \<and> assembleBlocks V (Mat_zeros 4 4) (4 div 2)
              = Inr \<lparr>rows = 4, cols = 4,
                      elems = [[1, 2, 3, 4], [5, 6, 7, 8], [9, 10, 11, 12], [13, 14, 15, 16 :: nat]]\<rparr>)"
proof -
  have h: "Mat_wf \<lparr>rows = 4, cols = 4,
            elems = [[1, 2, 3, 4], [5, 6, 7, 8], [9, 10, 11, 12], [13, 14, 15, 16 :: nat]]\<rparr>"
    by (simp add: Mat_wf_def)
  from createBlocks_assembleBlocks_identity[OF h, of 4 2] h show ?thesis by simp
qed

section \<open>The order of the blocks\<close>

text \<open>
  C6 (blocks in row-major order, block \<open>i\<close> written at pixel row
  \<open>(i / gridWidth) * blockSize\<close> and pixel column \<open>(i % gridWidth) * blockSize\<close>). The source
  calls \<open>i / n\<close> the row number and \<open>i % n\<close> the column number, and \<open>main\<close> reads the
  watermark with them as row and column; but the first argument of \<open>Rect\<close> is the
  column, so that the outer loop of \<open>createBlocks\<close> walks over columns and
  \<open>assembleBlocks\<close> uses the row number as the column. On the image 1, 2 / 3, 4 with
  blocks of size 1 the second block is the 3, which lies in row 1, column 0, not the 2
  in row 0, column 1; and the second block of a list is written to row 1, column 0.
\<close>

theorem createBlocks_not_row_major:
  "createBlocks [] \<lparr>rows = 2, cols = 2, elems = [[1, 2], [3, 4 :: nat]]\<rparr> 1
     = Some (Inr [\<lparr>rows = 1, cols = 1, elems = [[1]]\<rparr>, \<lparr>rows = 1, cols = 1, elems = [[3]]\<rparr>,
                  \<lparr>rows = 1, cols = 1, elems = [[2]]\<rparr>, \<lparr>rows = 1, cols = 1, elems = [[4]]\<rparr>])
   \<and> assembleBlocks [\<lparr>rows = 1, cols = 1, elems = [[1]]\<rparr>, \<lparr>rows = 1, cols = 1, elems = [[2]]\<rparr>,
                      \<lparr>rows = 1, cols = 1, elems = [[3]]\<rparr>, \<lparr>rows = 1, cols = 1, elems = [[4 :: nat]]\<rparr>]
        (Mat_zeros 2 2) 2
     = Inr \<lparr>rows = 2, cols = 2, elems = [[1, 3], [2, 4]]\<rparr>"
  by code_simp

lemma div_mod_grid:
  fixes N :: nat
  assumes "r < N"
  shows "(a * N + r) div N = a" and "(a * N + r) mod N = r"
  using assms by simp_all

text \<open>
  The addressing that the two functions have in general: with \<open>G = M div N\<close>, block \<open>k\<close>
  of \<open>createBlocks\<close> is the region of the image that starts at pixel column
  \<open>(k div G) * N\<close> and pixel row \<open>(k mod G) * N\<close>; and \<open>assembleBlocks\<close> on blocks of size
  \<open>N\<close> whose rectangles lie inside the destination returns an image of the size of the
  destination in which block \<open>i\<close> occupies the region that starts at pixel column
  \<open>(i div n) * N\<close> and pixel row \<open>(i mod n) * N\<close>.
\<close>

lemma createBlocks_assembleBlocks_addressing:
  assumes "rows I = M" and "cols I = M" and "0 < N" and "N \<le> M"
    and "0 < n" and "list_all (\<lambda>B. rows B = N \<and> cols B = N) Vb"
    and "list_all (\<lambda>i. Rect_inside (assembleBlocks_rect Vb n i) J) [0..<length Vb]"
  shows "(\<exists>V. createBlocks [] I N = Some (Inr V) \<and> length V = (M div N) * (M div N)
            \<and> (\<forall>k<(M div N) * (M div N).
                  Mat_roi I (Rect ((k div (M div N)) * N) ((k mod (M div N)) * N) N N) = Inr (V ! k)))
       \<and> (\<exists>R. assembleBlocks Vb J n = Inr R \<and> rows R = rows J \<and> cols R = cols J
            \<and> (\<forall>i<length Vb. \<forall>r<N. \<forall>c<N.
                  Mat_elem R ((i mod n) * N + r) ((i div n) * N + c) = Mat_elem (Vb ! i) r c))"
proof
  define G where "G = M div N"
  have sq: "cols I = rows I" using assms(1,2) by simp
  obtain V where V: "createBlocks [] I N = Some (Inr V)"
    using createBlocks_result[OF assms(3) sq, of "[]"] by simp
  have len: "length V = G * G"
    using createBlocks_nth(1)[OF assms(3) sq V] assms(1) by (simp add: G_def)
  have roi: "Mat_roi I (Rect ((k div G) * N) ((k mod G) * N) N N) = Inr (V ! k)" if "k < G * G" for k
  proof -
    have "V ! k = tile_at I N (k div G) (k mod G)"
      using createBlocks_nth(2)[OF assms(3) sq V] assms(1) that by (simp add: G_def)
    moreover have "(k div G) * N + N \<le> cols I" "(k mod G) * N + N \<le> rows I"
      using grid_step_inside[of "k div G" M N] grid_step_inside[of "k mod G" M N]
        grid_div_less[OF that] assms(1,2) by (simp_all add: G_def)
    ultimately show ?thesis by (simp add: tile_at_roi)
  qed
  show "\<exists>V. createBlocks [] I N = Some (Inr V) \<and> length V = (M div N) * (M div N)
            \<and> (\<forall>k<(M div N) * (M div N).
                  Mat_roi I (Rect ((k div (M div N)) * N) ((k mod (M div N)) * N) N N) = Inr (V ! k))"
    using V len roi unfolding G_def by blast
next
  have dims: "\<And>j. j < length Vb \<Longrightarrow> rows (Vb ! j) = N \<and> cols (Vb ! j) = N"
    using assms(6) by (simp add: list_all_length)
  have inside: "\<And>i. i < length Vb \<Longrightarrow> Rect_inside (assembleBlocks_rect Vb n i) J"
    using assms(7) by (simp add: list_all_length)
  obtain R where R: "assembleBlocks_loop Vb n 0 J = Inr R"
    using assembleBlocks_loop_succeeds[OF assms(5), of 0 Vb J] inside by blast
  have Rdims: "rows R = rows J" "cols R = cols J"
    using assembleBlocks_loop_frame[OF R] by simp_all
  have el: "Mat_elem R ((i mod n) * N + r) ((i div n) * N + c) = Mat_elem (Vb ! i) r c"
    if "i < length Vb" "r < N" "c < N" for i r c
  proof -
    have "(i div n) * N + N \<le> cols J" "(i mod n) * N + N \<le> rows J"
      using inside[OF that(1)] dims[OF that(1)]
      by (simp_all add: Rect_inside_def assembleBlocks_rect_def)
    then have r0: "(i mod n) * N + r < rows J" and c0: "(i div n) * N + c < cols J"
      using that(2,3) by simp_all
    have idx: "(i div n) * n + i mod n = i" by simp
    have "i mod n < n" using assms(5) by simp
    then show ?thesis
      using assembleBlocks_loop_elem[OF assms(5,3) dims R r0 c0]
        div_mod_grid[OF that(2), of "i mod n"] div_mod_grid[OF that(3), of "i div n"] idx that(1)
      by simp
  qed
  show "\<exists>R. assembleBlocks Vb J n = Inr R \<and> rows R = rows J \<and> cols R = cols J
            \<and> (\<forall>i<length Vb. \<forall>r<N. \<forall>c<N.
                  Mat_elem R ((i mod n) * N + r) ((i div n) * N + c) = Mat_elem (Vb ! i) r c)"
    using R Rdims el by (auto simp: assembleBlocks_def)
qed

lemma createBlocks_assembleBlocks_addressing_example:
  "rows \<lparr>rows = 2, cols = 2, elems = [[1, 2], [3, 4 :: nat]]\<rparr> = 2
   \<and> cols \<lparr>rows = 2, cols = 2, elems = [[1, 2], [3, 4 :: nat]]\<rparr> = 2
   \<and> (0 :: nat) < 1 \<and> (1 :: nat) \<le> 2 \<and> (0 :: nat) < 2
   \<and> list_all (\<lambda>B. rows B = 1 \<and> cols B = 1)
        [\<lparr>rows = 1, cols = 1, elems = [[5 :: nat]]\<rparr>, \<lparr>rows = 1, cols = 1, elems = [[6]]\<rparr>]
   \<and> list_all (\<lambda>i. Rect_inside
          (assembleBlocks_rect
             [\<lparr>rows = 1, cols = 1, elems = [[5 :: nat]]\<rparr>, \<lparr>rows = 1, cols = 1, elems = [[6]]\<rparr>] 2 i)
          (Mat_zeros 2 2 :: nat Mat))
        [0..<length [\<lparr>rows = 1, cols = 1, elems = [[5 :: nat]]\<rparr>, \<lparr>rows = 1, cols = 1, elems = [[6]]\<rparr>]]
   \<and> (\<exists>R. assembleBlocks
              [\<lparr>rows = 1, cols = 1, elems = [[5 :: nat]]\<rparr>, \<lparr>rows = 1, cols = 1, elems = [[6]]\<rparr>]
              (Mat_zeros 2 2) 2 = Inr R
          \<and> Mat_elem R ((1 mod 2) * 1 + 0) ((1 div 2) * 1 + 0) = 6)"
proof -
  have h6: "list_all (\<lambda>B. rows B = 1 \<and> cols B = 1)
        [\<lparr>rows = 1, cols = 1, elems = [[5 :: nat]]\<rparr>, \<lparr>rows = 1, cols = 1, elems = [[6]]\<rparr>]"
    by simp
  have h7: "list_all (\<lambda>i. Rect_inside
          (assembleBlocks_rect
             [\<lparr>rows = 1, cols = 1, elems = [[5 :: nat]]\<rparr>, \<lparr>rows = 1, cols = 1, elems = [[6]]\<rparr>] 2 i)
          (Mat_zeros 2 2 :: nat Mat))
        [0..<length [\<lparr>rows = 1, cols = 1, elems = [[5 :: nat]]\<rparr>, \<lparr>rows = 1, cols = 1, elems = [[6]]\<rparr>]]"
    by (simp add: upt_rec Rect_inside_def assembleBlocks_rect_def Mat_zeros_def)
  have "\<exists>R. assembleBlocks
              [\<lparr>rows = 1, cols = 1, elems = [[5 :: nat]]\<rparr>, \<lparr>rows = 1, cols = 1, elems = [[6]]\<rparr>]
              (Mat_zeros 2 2) 2 = Inr R
          \<and> Mat_elem R ((1 mod 2) * 1 + 0) ((1 div 2) * 1 + 0)
             = Mat_elem ([\<lparr>rows = 1, cols = 1, elems = [[5 :: nat]]\<rparr>, \<lparr>rows = 1, cols = 1, elems = [[6]]\<rparr>] ! 1) 0 0"
    using createBlocks_assembleBlocks_addressing[
        of "\<lparr>rows = 2, cols = 2, elems = [[1, 2], [3, 4 :: nat]]\<rparr>" 2 1 2
           "[\<lparr>rows = 1, cols = 1, elems = [[5 :: nat]]\<rparr>, \<lparr>rows = 1, cols = 1, elems = [[6]]\<rparr>]"
           "Mat_zeros 2 2", OF _ _ _ _ _ h6 h7]
    by fastforce
  then show ?thesis using h6 h7 by (simp add: Mat_elem_def)
qed

section \<open>Reassembly into the fixed destination\<close>

lemma no_optimalDFTSize_513_519:
  "list_all (\<lambda>m. \<not> is_optimalDFTSize m) [513, 514, 515, 516, 517, 518, 519]"
  by code_simp

lemma optimalDFTSize_above_512:
  assumes "is_optimalDFTSize M" and "512 < M"
  shows "520 \<le> M"
proof (rule ccontr)
  assume "\<not> 520 \<le> M"
  with assms(2) have "M \<in> set [513, 514, 515, 516, 517, 518, 519]" by (simp; arith)
  with no_optimalDFTSize_513_519 have "\<not> is_optimalDFTSize M"
    unfolding list_all_iff by blast
  with assms(1) show False by simp
qed

lemma grid_width_8:
  fixes M :: nat
  assumes "M mod 8 < M div 8"
  shows "M div (M div 8) = 8"
proof (rule div_nat_eqI)
  have M: "M = 8 * (M div 8) + M mod 8" by simp
  show "M div 8 * 8 \<le> M" by simp
  have "M div 8 * Suc 8 = 8 * (M div 8) + M div 8" by simp
  then show "M < M div 8 * Suc 8" using M assms by linarith
qed




section \<open>The grid of main\<close>


lemma processImageFromFile_Inr:
  assumes "processImageFromFile env fileName = Inr I"
  shows "cols I = rows I" and "Mat_wf I"
  using assms
  by (auto simp: processImageFromFile_def copyMakeBorder_def Let_def split: if_splits)

lemma convertTo_32F_sel [simp]:
  "rows (convertTo_32F ar m) = rows m" "cols (convertTo_32F ar m) = cols m"
  by (simp_all add: convertTo_32F_def)

lemma convertTo_32F_wf: "Mat_wf m \<Longrightarrow> Mat_wf (convertTo_32F ar m)"
  by (simp add: convertTo_32F_def Mat_wf_def list_all_iff)

lemma main_dct_loop_result:
  assumes "\<And>i. i < length V \<Longrightarrow> \<exists>B. dct env (convertTo_32F (arith env) (V ! i)) = Inr B"
  shows "\<exists>Vdct. main_dct_loop env V acc = Inr (acc @ Vdct) \<and> length Vdct = length V
           \<and> (\<forall>i<length V. dct env (convertTo_32F (arith env) (V ! i)) = Inr (Vdct ! i))"
  using assms
proof (induction V arbitrary: acc)
  case Nil
  then show ?case by simp
next
  case (Cons Vi V)
  from Cons.prems[of 0] obtain Vti where Vti: "dct env (convertTo_32F (arith env) Vi) = Inr Vti"
    by auto
  have "\<And>i. i < length V \<Longrightarrow> \<exists>B. dct env (convertTo_32F (arith env) (V ! i)) = Inr B"
    using Cons.prems[of "Suc i" for i] by simp
  from Cons.IH[OF this, of "acc @ [Vti]"] obtain Vdct
    where Vdct: "main_dct_loop env V (acc @ [Vti]) = Inr ((acc @ [Vti]) @ Vdct)"
      "length Vdct = length V"
      "\<forall>i<length V. dct env (convertTo_32F (arith env) (V ! i)) = Inr (Vdct ! i)"
    by blast
  have "\<forall>i<length (Vi # V). dct env (convertTo_32F (arith env) ((Vi # V) ! i)) = Inr ((Vti # Vdct) ! i)"
    using Vti Vdct(3) by (simp add: nth_Cons split: nat.splits)
  then show ?case using Vti Vdct(1,2) by (intro exI[of _ "Vti # Vdct"]) simp
qed










text \<open>
  Above 512: for a padded side above 512 (of a size that \<open>getOptimalDFTSize\<close> returns) on
  whose blocks \<open>dct\<close> succeeds, the run of \<open>main\<close> ends in the first reassembly, with
  the first file written and no block embedded.
\<close>

lemma main_above_512_stops:
  fixes env :: "('a::{linorder,zero}) env"
  assumes "length argv = 2"
    and "processImageFromFile env (argv ! 1) = Inr I"
    and "rows I = M" and "512 < M" and "is_optimalDFTSize M"
    and "\<And>B. Mat_wf B \<Longrightarrow> rows B = M div 8 \<Longrightarrow> cols B = M div 8 \<Longrightarrow>
           \<exists>B'. dct env B = Inr B' \<and> Mat_wf B' \<and> rows B' = M div 8 \<and> cols B' = M div 8"
  shows "main env argv = Some ([''watermark.png''], Stopped CvAssert)"
proof -
  define N where "N = M div 8"
  have M: "520 \<le> M" using optimalDFTSize_above_512[OF assms(5,4)] .
  then have N65: "65 \<le> N" unfolding N_def by linarith
  then have N: "0 < N" by simp
  have small: "M mod 8 < M div 8" using N65 mod_less_divisor[of 8 M] unfolding N_def by linarith
  have sq: "cols I = rows I" using processImageFromFile_Inr[OF assms(2)] by simp
  have G: "rows I div N = 8" using grid_width_8[OF small] assms(3) by (simp add: N_def)
  have cb: "createBlocks [] I N
          = Some (Inr ([] @ map (\<lambda>k. tile_at I N (k div (rows I div N)) (k mod (rows I div N)))
                              [0..<(rows I div N) * (rows I div N)]))"
    by (rule createBlocks_result[OF N sq])
  define V where "V = map (\<lambda>k. tile_at I N (k div 8) (k mod 8)) [0..<64]"
  have V: "createBlocks [] I (rows I div 8) = Some (Inr V)"
    using cb G assms(3) by (simp add: V_def N_def)
  have Vlen: "length V = 64" by (simp add: V_def)
  have Vdims: "Mat_wf (V ! i) \<and> rows (V ! i) = N \<and> cols (V ! i) = N" if "i < 64" for i
    using that by (simp add: V_def)
  have dct_ok: "\<exists>B'. dct env (convertTo_32F (arith env) (V ! i)) = Inr B'
                  \<and> Mat_wf B' \<and> rows B' = N \<and> cols B' = N" if "i < 64" for i
    using assms(6)[of "convertTo_32F (arith env) (V ! i)"] Vdims[OF that]
    by (simp add: convertTo_32F_wf N_def)
  then have "\<And>i. i < length V \<Longrightarrow> \<exists>B. dct env (convertTo_32F (arith env) (V ! i)) = Inr B"
    using Vlen by metis
  from main_dct_loop_result[OF this, of "[]"] obtain Vdct
    where Vdct: "main_dct_loop env V [] = Inr Vdct" "length Vdct = 64"
      and Vdct_nth: "\<And>i. i < 64 \<Longrightarrow> dct env (convertTo_32F (arith env) (V ! i)) = Inr (Vdct ! i)"
    using Vlen by auto
  have d7: "rows (Vdct ! 7) = N \<and> cols (Vdct ! 7) = N"
    using dct_ok[of 7] Vdct_nth[of 7] by auto
  have "\<not> Rect_inside (assembleBlocks_rect Vdct 8 7) (Mat_zeros 512 512 :: 'a Mat)"
    using d7 N65 by (simp add: Rect_inside_def assembleBlocks_rect_def Mat_zeros_def)
  then have "assembleBlocks_loop Vdct 8 0 (Mat_zeros 512 512) = Inl CvAssert"
    using Vdct(2) by (intro assembleBlocks_loop_outside[where i = 7]) simp_all
  then have "assembleBlocks Vdct (Mat_zeros 512 512) 8 = Inl CvAssert"
    by (simp add: assembleBlocks_def)
  then show ?thesis
    using assms(1,2) V Vdct(1) by (simp add: main_def)
qed

end
